theory Spec2Isabelle
  imports Main "HOL-Library.AList" "HOL-Library.Multiset" "HOL-Library.Sublist"
begin

section \<open>Go strings\<close>

text \<open>
  A Go string is a sequence of bytes, and so is a HOL \<^typ>\<open>string\<close>. The program calls
  \<^verbatim>\<open>strings.Split\<close>, \<^verbatim>\<open>strings.Join\<close>, \<^verbatim>\<open>strings.TrimSpace\<close>, \<^verbatim>\<open>strings.TrimPrefix\<close>
  and \<^verbatim>\<open>strings.TrimSuffix\<close> of the standard library; they are written here as the
  library documents them.
\<close>

definition nl :: char where
  "nl = CHR 0x0A"

text \<open>
  \<^verbatim>\<open>strings.Split(s, sep)\<close> for a separator of one byte (the program only splits at
  \<^verbatim>\<open>"\n"\<close>): one piece more than there are separators, so the empty string gives one
  empty piece.
\<close>

fun strings_Split :: "string \<Rightarrow> char \<Rightarrow> string list" where
  "strings_Split [] sep = [[]]"
| "strings_Split (c # cs) sep =
     (if c = sep then [] # strings_Split cs sep
      else (case strings_Split cs sep of
              l # ls \<Rightarrow> (c # l) # ls
            | [] \<Rightarrow> [[c]]))"

fun strings_Join :: "string list \<Rightarrow> string \<Rightarrow> string" where
  "strings_Join [] sep = []"
| "strings_Join [x] sep = x"
| "strings_Join (x # y # ys) sep = x @ sep @ strings_Join (y # ys) sep"

definition strings_TrimPrefix :: "string \<Rightarrow> string \<Rightarrow> string" where
  "strings_TrimPrefix s p = (if prefix p s then drop (length p) s else s)"

definition strings_TrimSuffix :: "string \<Rightarrow> string \<Rightarrow> string" where
  "strings_TrimSuffix s p = (if suffix p s then take (length s - length p) s else s)"

text \<open>
  \<^verbatim>\<open>strings.TrimSpace\<close> removes leading and trailing white space "as defined by
  Unicode": the code points of \<^verbatim>\<open>unicode.IsSpace\<close>, here in their UTF-8 encodings
  (tab, LF, VT, FF, CR, space, U+0085, U+00A0, U+1680, U+2000 to U+200A, U+2028, U+2029,
  U+202F, U+205F, U+3000). Bytes that are not the encoding of such a code point, invalid
  UTF-8 included, are kept.
\<close>

definition space_runes :: "string list" where
  "space_runes =
    [[CHR 0x09], [CHR 0x0A], [CHR 0x0B], [CHR 0x0C], [CHR 0x0D], [CHR 0x20],
     [CHR 0xC2, CHR 0x85], [CHR 0xC2, CHR 0xA0],
     [CHR 0xE1, CHR 0x9A, CHR 0x80],
     [CHR 0xE2, CHR 0x80, CHR 0x80], [CHR 0xE2, CHR 0x80, CHR 0x81],
     [CHR 0xE2, CHR 0x80, CHR 0x82], [CHR 0xE2, CHR 0x80, CHR 0x83],
     [CHR 0xE2, CHR 0x80, CHR 0x84], [CHR 0xE2, CHR 0x80, CHR 0x85],
     [CHR 0xE2, CHR 0x80, CHR 0x86], [CHR 0xE2, CHR 0x80, CHR 0x87],
     [CHR 0xE2, CHR 0x80, CHR 0x88], [CHR 0xE2, CHR 0x80, CHR 0x89],
     [CHR 0xE2, CHR 0x80, CHR 0x8A],
     [CHR 0xE2, CHR 0x80, CHR 0xA8], [CHR 0xE2, CHR 0x80, CHR 0xA9],
     [CHR 0xE2, CHR 0x80, CHR 0xAF],
     [CHR 0xE2, CHR 0x81, CHR 0x9F],
     [CHR 0xE3, CHR 0x80, CHR 0x80]]"

function TrimLeftSpace :: "string \<Rightarrow> string" where
  "TrimLeftSpace s =
     (case find (\<lambda>r. prefix r s) space_runes of
        None \<Rightarrow> s
      | Some r \<Rightarrow> TrimLeftSpace (drop (length r) s))"
  by pat_completeness auto
termination
proof (relation "measure length")
  show "wf (measure length)" by simp
next
  fix s r
  assume "find (\<lambda>r. prefix r s) space_runes = Some r"
  then have "r \<in> set space_runes" and "prefix r s"
    by (auto simp: find_Some_iff)
  then have "r \<noteq> []" and "length r \<le> length s"
    by (auto simp: space_runes_def prefix_length_le)
  then show "(drop (length r) s, s) \<in> measure length"
    by (cases r) simp_all
qed

function TrimRightSpace :: "string \<Rightarrow> string" where
  "TrimRightSpace s =
     (case find (\<lambda>r. suffix r s) space_runes of
        None \<Rightarrow> s
      | Some r \<Rightarrow> TrimRightSpace (take (length s - length r) s))"
  by pat_completeness auto
termination
proof (relation "measure length")
  show "wf (measure length)" by simp
next
  fix s r
  assume "find (\<lambda>r. suffix r s) space_runes = Some r"
  then have "r \<in> set space_runes" and "suffix r s"
    by (auto simp: find_Some_iff)
  then have "r \<noteq> []" and "length r \<le> length s"
    by (auto simp: space_runes_def suffix_length_le)
  then show "(take (length s - length r) s, s) \<in> measure length"
    by (cases r) simp_all
qed

declare TrimLeftSpace.simps [simp del] TrimRightSpace.simps [simp del]

definition strings_TrimSpace :: "string \<Rightarrow> string" where
  "strings_TrimSpace s = TrimRightSpace (TrimLeftSpace s)"

section \<open>Go maps\<close>

text \<open>
  A Go map is modelled by an association list with distinct keys: \<^const>\<open>map_of\<close> reads
  it, \<^const>\<open>AList.update\<close> is \<^verbatim>\<open>m[k] = v\<close>, \<^const>\<open>AList.delete\<close> is \<^verbatim>\<open>delete(m, k)\<close>.
  The order of the list means nothing. A \<^verbatim>\<open>range\<close> over a map visits every entry once,
  in an order the language leaves unspecified (the runtime picks a new one for each
  loop), so every \<^verbatim>\<open>range\<close> loop of the program takes the order of the keys from its
  environment.
\<close>

definition range_map :: "'k list \<Rightarrow> ('k \<times> 'v) list \<Rightarrow> ('k \<times> 'v) list" where
  "range_map ks m = List.map_filter (\<lambda>k. map_option (Pair k) (map_of m k)) ks"

definition iteration_order :: "'k list \<Rightarrow> ('k \<times> 'v) list \<Rightarrow> bool" where
  "iteration_order ks m \<longleftrightarrow> distinct ks \<and> set ks = set (map fst m)"

section \<open>The program's data\<close>

definition enclosingPattern :: string where
  "enclosingPattern = ''#-----------Docker-Hoster-Domains----------'' @ [nl]"

record ContainerAddress =
  IP :: string
  Name :: string
  Domains :: "string list"

record Hoster =
  hostsPath :: string
  hosts :: "(string \<times> ContainerAddress list) list"

text \<open>An error value carries the message the program wraps the cause in.\<close>

datatype error = Error string

text \<open>
  The world outside the process: the files by path, and what was printed to standard
  output (the bytes of each print call, one entry for each call) and to standard error
  (the message and the error it reports).
\<close>

record world =
  files :: "string \<rightharpoonup> string"
  stdout :: "string list"
  stderr :: "(string \<times> error) list"

text \<open>
  \<^verbatim>\<open>os.WriteFile\<close> opens the file (creating or truncating it) and then writes the data:
  it can fail before the file is touched, or after some of the bytes were written.
\<close>

datatype write_outcome = WriteOK | OpenFails | WriteFailsAfter nat

text \<open>
  What the environment decides during one call of \<^verbatim>\<open>updateHostsFile\<close>: the orders of its
  two \<^verbatim>\<open>range\<close> loops over the registry and the outcome of its three file operations.
\<close>

record render_env =
  print_order :: "string list"
  lines_order :: "string list"
  read_ok :: bool
  write_res :: write_outcome
  rename_ok :: bool

definition os_ReadFile :: "bool \<Rightarrow> world \<Rightarrow> string \<Rightarrow> string option" where
  "os_ReadFile ok w path = (if ok then files w path else None)"

definition os_WriteFile :: "write_outcome \<Rightarrow> world \<Rightarrow> string \<Rightarrow> string \<Rightarrow> bool \<times> world" where
  "os_WriteFile res w path data =
     (case res of
        WriteOK \<Rightarrow> (True, w\<lparr>files := (files w)(path \<mapsto> data)\<rparr>)
      | OpenFails \<Rightarrow> (False, w)
      | WriteFailsAfter n \<Rightarrow> (False, w\<lparr>files := (files w)(path \<mapsto> take n data)\<rparr>))"

definition os_Rename :: "bool \<Rightarrow> world \<Rightarrow> string \<Rightarrow> string \<Rightarrow> bool \<times> world" where
  "os_Rename ok w old new =
     (case files w old of
        Some data \<Rightarrow>
          if ok then (True, w\<lparr>files := (files w)(old := None, new \<mapsto> data)\<rparr>)
          else (False, w)
      | None \<Rightarrow> (False, w))"

section \<open>updateHostsFile\<close>

text \<open>The loop that cuts the lines at the first one equal to the pattern.\<close>

fun cut_at_pattern :: "string list \<Rightarrow> string list" where
  "cut_at_pattern [] = []"
| "cut_at_pattern (line # rest) =
     (if line @ [nl] = enclosingPattern then [] else line # cut_at_pattern rest)"

text \<open>The loop that removes trailing empty lines.\<close>

function strip_trailing :: "string list \<Rightarrow> string list" where
  "strip_trailing lines =
     (if 0 < length lines \<and> strings_TrimSpace (last lines) = []
      then strip_trailing (butlast lines) else lines)"
  by pat_completeness auto
termination
  by (relation "measure length") auto

declare strip_trailing.simps [simp del]

definition host_line :: "ContainerAddress \<Rightarrow> string" where
  "host_line addr = IP addr @ ''    '' @ strings_Join (Domains addr) ''   ''"

definition print_line :: "ContainerAddress \<Rightarrow> string" where
  "print_line addr =
     ''ip: '' @ IP addr @ '' domains: ['' @ strings_Join (Domains addr) '' '' @ '']'' @ [nl]"

text \<open>
  The content the function writes, from the registry, the order of the second
  \<^verbatim>\<open>range\<close> loop and the bytes read from the hosts file.
\<close>

definition new_content :: "string list \<Rightarrow> (string \<times> ContainerAddress list) list \<Rightarrow> string \<Rightarrow> string" where
  "new_content order hs data =
     (let lines = strings_Split data nl;
          lines = cut_at_pattern lines;
          lines = strip_trailing lines;
          lines =
            (if 0 < length hs then
               lines @ [[], strings_TrimSuffix enclosingPattern [nl]]
                 @ map host_line (concat (map snd (range_map order hs)))
                 @ [''#-----Do-not-add-hosts-after-this-line-----'', []]
             else lines)
      in strings_Join lines [nl])"

definition updateHostsFile :: "render_env \<Rightarrow> Hoster \<Rightarrow> world \<Rightarrow> error option \<times> world" where
  "updateHostsFile env h w =
     (let w = w\<lparr>stdout := stdout w
                  @ [if length (hosts h) = 0 then ''Removing all hosts before exit...'' @ [nl]
                     else ''Updating hosts file with:'' @ [nl]]
                  @ map print_line (concat (map snd (range_map (print_order env) (hosts h))))\<rparr>
      in case os_ReadFile (read_ok env) w (hostsPath h) of
           None \<Rightarrow> (Some (Error ''failed to read hosts file''), w)
         | Some data \<Rightarrow>
             let auxFilePath = hostsPath h @ ''.aux'';
                 content = new_content (lines_order env) (hosts h) data
             in case os_WriteFile (write_res env) w auxFilePath content of
                  (False, w) \<Rightarrow> (Some (Error ''failed to write aux file''), w)
                | (True, w) \<Rightarrow>
                    (case os_Rename (rename_ok env) w auxFilePath (hostsPath h) of
                       (False, w) \<Rightarrow> (Some (Error ''failed to rename aux file''), w)
                     | (True, w) \<Rightarrow> (None, w)))"

definition handleShutdown :: "render_env \<Rightarrow> Hoster \<Rightarrow> world \<Rightarrow> Hoster \<times> world" where
  "handleShutdown env h w =
     (let h = h\<lparr>hosts := []\<rparr>
      in case updateHostsFile env h w of
           (Some err, w) \<Rightarrow> (h, w\<lparr>stderr := stderr w @ [(''Error cleaning up hosts file'', err)]\<rparr>)
         | (None, w) \<Rightarrow> (h, w))"

section \<open>getContainerData\<close>

text \<open>
  What \<^verbatim>\<open>ContainerInspect\<close> of the Docker client returns, as far as the program reads
  it: \<^verbatim>\<open>info.Config.Hostname\<close>, \<^verbatim>\<open>info.Name\<close>, \<^verbatim>\<open>info.NetworkSettings.IPAddress\<close> and
  the map \<^verbatim>\<open>info.NetworkSettings.Networks\<close> with the \<^verbatim>\<open>IPAddress\<close> and the \<^verbatim>\<open>Aliases\<close> of
  each endpoint. A \<^verbatim>\<open>nil\<close> slice of aliases and an empty one are the same list here; the
  program treats them alike.
\<close>

record EndpointSettings =
  ep_IPAddress :: string
  ep_Aliases :: "string list"

record ContainerJSON =
  Config_Hostname :: string
  info_Name :: string
  NetworkSettings_IPAddress :: string
  NetworkSettings_Networks :: "(string \<times> EndpointSettings) list"

text \<open>
  What the environment decides during one call of \<^verbatim>\<open>getContainerData\<close>: the answer of
  the Docker client (\<^const>\<open>None\<close> when the inspection fails), the order of the
  \<^verbatim>\<open>range\<close> loop over the networks, and for each network (by its name) the order of the
  \<^verbatim>\<open>range\<close> loop over \<^verbatim>\<open>domainsSet\<close>.
\<close>

record docker_env =
  ContainerInspect :: "string \<Rightarrow> ContainerJSON option"
  networks_order :: "string list"
  domains_order :: "string \<Rightarrow> string list"

text \<open>The set of domains of one network, a \<^verbatim>\<open>map[string]bool\<close>.\<close>

definition domainsSet :: "string list \<Rightarrow> string \<Rightarrow> string \<Rightarrow> (string \<times> bool) list" where
  "domainsSet aliases containerName containerHostname =
     (let domainsSet = fold (\<lambda>alias s. AList.update alias True s) aliases [];
          domainsSet = AList.update containerName True domainsSet;
          domainsSet = AList.update containerHostname True domainsSet
      in domainsSet)"

text \<open>The loop over the networks, in the order it visits them, appending to \<^verbatim>\<open>result\<close>.\<close>

fun networks_loop ::
  "(string \<Rightarrow> string list) \<Rightarrow> string \<Rightarrow> string \<Rightarrow> (string \<times> EndpointSettings) list
     \<Rightarrow> ContainerAddress list \<Rightarrow> ContainerAddress list" where
  "networks_loop dord containerName containerHostname [] result = result"
| "networks_loop dord containerName containerHostname ((n, network) # rest) result =
     (if length (ep_Aliases network) = 0
      then networks_loop dord containerName containerHostname rest result
      else
        let domains =
              map fst (range_map (dord n)
                (domainsSet (ep_Aliases network) containerName containerHostname))
        in networks_loop dord containerName containerHostname rest
             (result @ [\<lparr>IP = ep_IPAddress network, Name = containerName, Domains = domains\<rparr>]))"

definition getContainerData :: "docker_env \<Rightarrow> string \<Rightarrow> error + ContainerAddress list" where
  "getContainerData env containerID =
     (case ContainerInspect env containerID of
        None \<Rightarrow> Inl (Error ''failed to inspect container'')
      | Some info \<Rightarrow>
          let containerHostname = Config_Hostname info;
              containerName = strings_TrimPrefix (info_Name info) ''/'';
              containerIP = NetworkSettings_IPAddress info;
              result = networks_loop (domains_order env) containerName containerHostname
                         (range_map (networks_order env) (NetworkSettings_Networks info)) [];
              result =
                (if containerIP \<noteq> [] then
                   result @ [\<lparr>IP = containerIP, Name = containerName,
                               Domains = [containerName, containerHostname]\<rparr>]
                 else result)
          in Inr result)"

section \<open>The event loop of Run\<close>

record event =
  ev_Type :: string
  ev_Action :: string
  Actor_ID :: string

text \<open>The body of \<^verbatim>\<open>case "start"\<close>.\<close>

definition onStart :: "docker_env \<Rightarrow> render_env \<Rightarrow> Hoster \<Rightarrow> world \<Rightarrow> string \<Rightarrow> Hoster \<times> world" where
  "onStart denv renv h w actorID =
     (case getContainerData denv actorID of
        Inl err \<Rightarrow> (h, w\<lparr>stderr := stderr w @ [(''Error getting container data'', err)]\<rparr>)
      | Inr containerData \<Rightarrow>
          let h = h\<lparr>hosts := AList.update actorID containerData (hosts h)\<rparr>
          in case updateHostsFile renv h w of
               (Some err, w) \<Rightarrow> (h, w\<lparr>stderr := stderr w @ [(''Error updating hosts file'', err)]\<rparr>)
             | (None, w) \<Rightarrow> (h, w))"

text \<open>The body of \<^verbatim>\<open>case "stop", "die", "destroy"\<close>.\<close>

definition onStop :: "render_env \<Rightarrow> Hoster \<Rightarrow> world \<Rightarrow> string \<Rightarrow> Hoster \<times> world" where
  "onStop renv h w actorID =
     (if map_of (hosts h) actorID \<noteq> None then
        let h = h\<lparr>hosts := AList.delete actorID (hosts h)\<rparr>
        in case updateHostsFile renv h w of
             (Some err, w) \<Rightarrow> (h, w\<lparr>stderr := stderr w @ [(''Error updating hosts file'', err)]\<rparr>)
           | (None, w) \<Rightarrow> (h, w)
      else (h, w))"

text \<open>
  One event taken from the channel: the body of \<^verbatim>\<open>case event := <-eventsChan\<close>. The
  other two cases of the \<^verbatim>\<open>select\<close> (an error of the stream, cancellation) end the loop.
\<close>

definition handle_event :: "docker_env \<Rightarrow> render_env \<Rightarrow> Hoster \<Rightarrow> world \<Rightarrow> event \<Rightarrow> Hoster \<times> world" where
  "handle_event denv renv h w ev =
     (if ev_Type ev \<noteq> ''container'' then (h, w)
      else if ev_Action ev = ''start'' then onStart denv renv h w (Actor_ID ev)
      else if ev_Action ev = ''stop'' \<or> ev_Action ev = ''die'' \<or> ev_Action ev = ''destroy''
      then onStop renv h w (Actor_ID ev)
      else (h, w))"

text \<open>
  Every call of \<^const>\<open>updateHostsFile\<close> starts by printing one of two banners, and
  nothing else prints them: the renders a run has made are the banners on its standard
  output.
\<close>

definition is_banner :: "string \<Rightarrow> bool" where
  "is_banner l \<longleftrightarrow>
     l = ''Removing all hosts before exit...'' @ [nl] \<or> l = ''Updating hosts file with:'' @ [nl]"

definition render_count :: "world \<Rightarrow> nat" where
  "render_count w = length (filter is_banner (stdout w))"

text \<open>A render in which all three file operations succeed.\<close>

definition io_ok :: "render_env \<Rightarrow> bool" where
  "io_ok env \<longleftrightarrow> read_ok env \<and> write_res env = WriteOK \<and> rename_ok env"

section \<open>Names for the parts of the hosts file\<close>

text \<open>
  The test of the cutting loop, the test of the loop that removes trailing lines, the
  lines the cutting loop keeps (the preserved prefix of the file) and the lines appended
  for a registry that is not empty (the managed section).
\<close>

definition is_pattern :: "string \<Rightarrow> bool" where
  "is_pattern line \<longleftrightarrow> line @ [nl] = enclosingPattern"

definition blank :: "string \<Rightarrow> bool" where
  "blank l \<longleftrightarrow> strings_TrimSpace l = []"

definition preserved_prefix :: "string \<Rightarrow> string list" where
  "preserved_prefix data = cut_at_pattern (strings_Split data nl)"

definition managed_lines :: "string list \<Rightarrow> (string \<times> ContainerAddress list) list \<Rightarrow> string list" where
  "managed_lines order hs = map host_line (concat (map snd (range_map order hs)))"

definition managed_section :: "string list \<Rightarrow> (string \<times> ContainerAddress list) list \<Rightarrow> string list" where
  "managed_section order hs =
     [[], strings_TrimSuffix enclosingPattern [nl]]
       @ managed_lines order hs
       @ [''#-----Do-not-add-hosts-after-this-line-----'', []]"

section \<open>Names for the parts of a resolution\<close>

text \<open>
  The display name of a container; the networks that declare an alias; what it means
  for a record to be the record of a network (the network's IP, the display name, and a
  duplicate-free list of domains holding exactly the declared aliases, the display name
  and the hostname); the record for the legacy IP; and the orders of the \<^verbatim>\<open>range\<close> loops
  over \<^verbatim>\<open>domainsSet\<close> being orders of its keys.
\<close>

definition display_name :: "ContainerJSON \<Rightarrow> string" where
  "display_name info = strings_TrimPrefix (info_Name info) ''/''"

definition has_aliases :: "string \<times> EndpointSettings \<Rightarrow> bool" where
  "has_aliases = (\<lambda>(n, network). ep_Aliases network \<noteq> [])"

definition is_network_record ::
  "string \<Rightarrow> string \<Rightarrow> string \<times> EndpointSettings \<Rightarrow> ContainerAddress \<Rightarrow> bool" where
  "is_network_record containerName containerHostname =
     (\<lambda>(n, network) r.
        IP r = ep_IPAddress network \<and> Name r = containerName \<and> distinct (Domains r)
        \<and> set (Domains r) = set (ep_Aliases network) \<union> {containerName, containerHostname})"

definition legacy_records :: "ContainerJSON \<Rightarrow> ContainerAddress list" where
  "legacy_records info =
     (if NetworkSettings_IPAddress info \<noteq> [] then
        [\<lparr>IP = NetworkSettings_IPAddress info, Name = display_name info,
          Domains = [display_name info, Config_Hostname info]\<rparr>]
      else [])"

definition domain_orders_valid :: "docker_env \<Rightarrow> ContainerJSON \<Rightarrow> bool" where
  "domain_orders_valid env info =
     list_all (\<lambda>(n, network). ep_Aliases network = [] \<or>
         iteration_order (domains_order env n)
           (domainsSet (ep_Aliases network) (display_name info) (Config_Hostname info)))
       (NetworkSettings_Networks info)"

section \<open>Example inputs\<close>

text \<open>
  Concrete inputs at which the theorems below are instantiated: a hosts file without a
  managed section, a registry of two containers, and a world that holds only the hosts
  file.
\<close>

definition ex_world :: "string \<Rightarrow> world" where
  "ex_world data = \<lparr>files = [''/etc/hosts'' \<mapsto> data], stdout = [], stderr = []\<rparr>"

definition ex_env :: "string list \<Rightarrow> write_outcome \<Rightarrow> render_env" where
  "ex_env order res =
     \<lparr>print_order = order, lines_order = order, read_ok = True, write_res = res, rename_ok = True\<rparr>"

definition ex_hoster :: "(string \<times> ContainerAddress list) list \<Rightarrow> Hoster" where
  "ex_hoster hs = \<lparr>hostsPath = ''/etc/hosts'', hosts = hs\<rparr>"

definition ex_registry :: "(string \<times> ContainerAddress list) list" where
  "ex_registry =
     [(''a'', [\<lparr>IP = ''10.0.0.2'', Name = ''a'', Domains = [''a'']\<rparr>]),
      (''b'', [\<lparr>IP = ''10.0.0.3'', Name = ''b'', Domains = [''b'']\<rparr>])]"

definition ex_hosts_file :: string where
  "ex_hosts_file = strings_Join [''127.0.0.1 localhost'', []] [nl]"

definition ex_blank_file :: string where
  "ex_blank_file = strings_Join [''127.0.0.1 localhost'', [], [], []] [nl]"

definition ex_managed_file :: string where
  "ex_managed_file =
     strings_Join
       [''127.0.0.1 localhost'', [], ''#-----------Docker-Hoster-Domains----------'',
        ''10.0.0.2    a'', ''10.0.0.3    b'',
        ''#-----Do-not-add-hosts-after-this-line-----'', []] [nl]"

definition ex_info :: ContainerJSON where
  "ex_info =
     \<lparr>Config_Hostname = ''web-1'', info_Name = ''/web'', NetworkSettings_IPAddress = [],
      NetworkSettings_Networks =
        [(''net1'', \<lparr>ep_IPAddress = ''172.18.0.2'', ep_Aliases = [''api'']\<rparr>),
         (''net2'', \<lparr>ep_IPAddress = ''172.19.0.2'', ep_Aliases = []\<rparr>)]\<rparr>"

definition ex_docker :: "ContainerJSON \<Rightarrow> docker_env" where
  "ex_docker info =
     \<lparr>ContainerInspect = (\<lambda>containerID. if containerID = ''c1'' then Some info else None),
      networks_order = map fst (NetworkSettings_Networks info),
      domains_order = (\<lambda>n. [''api'', ''web'', ''web-1''])\<rparr>"

definition ex_info_stopped :: ContainerJSON where
  "ex_info_stopped =
     \<lparr>Config_Hostname = ''web-1'', info_Name = ''/web'', NetworkSettings_IPAddress = [],
      NetworkSettings_Networks =
        [(''net1'', \<lparr>ep_IPAddress = [], ep_Aliases = [''api'']\<rparr>)]\<rparr>"

definition ex_info_bridge :: ContainerJSON where
  "ex_info_bridge =
     \<lparr>Config_Hostname = ''web'', info_Name = ''/web'', NetworkSettings_IPAddress = ''172.17.0.2'',
      NetworkSettings_Networks =
        [(''bridge'', \<lparr>ep_IPAddress = ''172.17.0.2'', ep_Aliases = []\<rparr>)]\<rparr>"

definition ex_event :: "string \<Rightarrow> string \<Rightarrow> event" where
  "ex_event action actorID = \<lparr>ev_Type = ''container'', ev_Action = action, Actor_ID = actorID\<rparr>"

section \<open>String lemmas\<close>

lemma TrimSpace_Nil: "strings_TrimSpace [] = []"
  by (simp add: strings_TrimSpace_def TrimLeftSpace.simps TrimRightSpace.simps space_runes_def)

lemma Split_nonempty: "strings_Split s sep \<noteq> []"
  by (induction s) (auto split: list.splits)

lemma Split_append: "strings_Split (a @ sep # b) sep = strings_Split a sep @ strings_Split b sep"
  by (induction a) (auto split: list.splits simp: Split_nonempty)

lemma Split_no_sep: "sep \<notin> set s \<Longrightarrow> strings_Split s sep = [s]"
  by (induction s) auto

lemma Split_lines_no_sep: "l \<in> set (strings_Split s sep) \<Longrightarrow> sep \<notin> set l"
  by (induction s arbitrary: l) (auto split: if_splits list.splits)

lemma Join_append:
  "xs \<noteq> [] \<Longrightarrow> ys \<noteq> [] \<Longrightarrow> strings_Join (xs @ ys) sep = strings_Join xs sep @ sep @ strings_Join ys sep"
  by (induction xs sep rule: strings_Join.induct) (auto simp: neq_Nil_conv)

lemma Split_Join_concat:
  "xs \<noteq> [] \<Longrightarrow> strings_Split (strings_Join xs [sep]) sep = concat (map (\<lambda>x. strings_Split x sep) xs)"
  by (induction xs "[sep]" rule: strings_Join.induct) (auto simp: Split_append)

lemma Split_Join:
  "xs \<noteq> [] \<Longrightarrow> (\<And>x. x \<in> set xs \<Longrightarrow> sep \<notin> set x) \<Longrightarrow> strings_Split (strings_Join xs [sep]) sep = xs"
  by (induction xs "[sep]" rule: strings_Join.induct) (auto simp: Split_append Split_no_sep)

lemma Join_Cons_Cons: "strings_Join ((a # x) # xs) sep = a # strings_Join (x # xs) sep"
  by (cases xs) auto

lemma Join_Split: "strings_Join (strings_Split s sep) [sep] = s"
  by (induction s) (auto split: list.splits simp: Split_nonempty Join_Cons_Cons)

lemma Join_prefix: "prefix (strings_Join xs sep) (strings_Join (xs @ ys) sep)"
proof (cases "xs = [] \<or> ys = []")
  case True
  then show ?thesis by auto
next
  case False
  then show ?thesis by (simp add: Join_append)
qed

subsection \<open>Cutting at the pattern\<close>

lemma cut_takeWhile: "cut_at_pattern xs = takeWhile (\<lambda>l. \<not> is_pattern l) xs"
  by (induction xs) (auto simp: is_pattern_def)

lemma cut_no_pattern: "l \<in> set (cut_at_pattern xs) \<Longrightarrow> \<not> is_pattern l"
  by (auto simp: cut_takeWhile dest: set_takeWhileD)

lemma cut_id: "(\<And>l. l \<in> set xs \<Longrightarrow> \<not> is_pattern l) \<Longrightarrow> cut_at_pattern xs = xs"
  by (simp add: cut_takeWhile)

lemma cut_append_pattern:
  "(\<And>l. l \<in> set xs \<Longrightarrow> \<not> is_pattern l) \<Longrightarrow> is_pattern p \<Longrightarrow> cut_at_pattern (xs @ p # ys) = xs"
  by (simp add: cut_takeWhile takeWhile_append2)

lemma TrimSuffix_append: "strings_TrimSuffix (x @ p) p = x"
  by (simp add: strings_TrimSuffix_def suffix_def)

lemma is_pattern_TrimSuffix: "is_pattern (strings_TrimSuffix enclosingPattern [nl])"
  unfolding is_pattern_def enclosingPattern_def TrimSuffix_append by (rule refl)

lemma TrimSuffix_pattern:
  "strings_TrimSuffix enclosingPattern [nl] = ''#-----------Docker-Hoster-Domains----------''"
  unfolding enclosingPattern_def TrimSuffix_append by (rule refl)

lemma not_pattern_Nil: "\<not> is_pattern []"
  by (simp add: is_pattern_def enclosingPattern_def)

subsection \<open>Removing trailing empty lines\<close>

lemma blank_Nil: "blank []"
  by (simp add: blank_def TrimSpace_Nil)

lemma strip_dropWhile: "strip_trailing xs = rev (dropWhile blank (rev xs))"
proof (induction xs rule: strip_trailing.induct)
  case (1 lines)
  show ?case
  proof (cases "lines = []")
    case True
    then show ?thesis by (simp add: strip_trailing.simps)
  next
    case False
    then obtain ys y where l: "lines = ys @ [y]"
      by (metis append_butlast_last_id)
    show ?thesis
    proof (cases "blank y")
      case True
      with l 1 show ?thesis
        by (subst strip_trailing.simps) (simp add: blank_def [abs_def])
    next
      case False
      with l show ?thesis
        by (subst strip_trailing.simps) (simp add: blank_def [abs_def])
    qed
  qed
qed

lemma strip_snoc_blank: "blank l \<Longrightarrow> strip_trailing (xs @ [l]) = strip_trailing xs"
  by (simp add: strip_dropWhile)

lemma strip_snoc_nonblank: "\<not> blank l \<Longrightarrow> strip_trailing (xs @ [l]) = xs @ [l]"
  by (simp add: strip_dropWhile)

lemma strip_Nil: "strip_trailing [] = []"
  by (simp add: strip_dropWhile)

lemma strip_last_nonblank: "strip_trailing xs \<noteq> [] \<Longrightarrow> \<not> blank (last (strip_trailing xs))"
proof -
  assume a: "strip_trailing xs \<noteq> []"
  then have "dropWhile blank (rev xs) \<noteq> []"
    by (simp add: strip_dropWhile)
  then have "\<not> blank (hd (dropWhile blank (rev xs)))"
    by (rule hd_dropWhile)
  then show ?thesis
    using a by (simp add: strip_dropWhile last_rev)
qed

lemma strip_idem: "strip_trailing (strip_trailing xs) = strip_trailing xs"
proof (cases "strip_trailing xs = []")
  case True
  then show ?thesis by (simp add: strip_Nil)
next
  case False
  then have "\<not> blank (last (strip_trailing xs))"
    by (rule strip_last_nonblank)
  with False show ?thesis
    by (metis append_butlast_last_id strip_snoc_nonblank)
qed

lemma strip_is_take: "strip_trailing xs = take (length (strip_trailing xs)) xs"
proof -
  have "rev (dropWhile blank (rev xs)) = take (length xs - length (takeWhile blank (rev xs))) xs"
    by (metis dropWhile_eq_drop rev_drop rev_rev_ident length_rev rev_take)
  then show ?thesis
    by (simp add: strip_dropWhile)
qed

lemma strip_subset: "set (strip_trailing xs) \<subseteq> set xs"
  by (metis strip_is_take set_take_subset)

lemma strip_prefix: "prefix (strip_trailing xs) xs"
  by (metis strip_is_take take_is_prefix)


subsection \<open>The written content, read again\<close>

lemma new_content_eq:
  "new_content order hs data =
     strings_Join (strip_trailing (preserved_prefix data)
        @ (if hs = [] then [] else managed_section order hs)) [nl]"
  by (simp add: new_content_def preserved_prefix_def managed_section_def managed_lines_def Let_def)

lemma prefix_no_nl: "l \<in> set (preserved_prefix data) \<Longrightarrow> nl \<notin> set l"
proof -
  assume "l \<in> set (preserved_prefix data)"
  then have "l \<in> set (strings_Split data nl)"
    by (auto simp: preserved_prefix_def cut_takeWhile dest: set_takeWhileD)
  then show ?thesis by (rule Split_lines_no_sep)
qed

lemma prefix_no_pattern: "l \<in> set (preserved_prefix data) \<Longrightarrow> \<not> is_pattern l"
  by (simp add: preserved_prefix_def cut_no_pattern)

lemma Split_concat_id:
  "(\<And>x. x \<in> set xs \<Longrightarrow> sep \<notin> set x) \<Longrightarrow> concat (map (\<lambda>x. strings_Split x sep) xs) = xs"
  by (induction xs) (auto simp: Split_no_sep)

lemma reparse_empty:
  assumes "\<And>l. l \<in> set P \<Longrightarrow> nl \<notin> set l" "\<And>l. l \<in> set P \<Longrightarrow> \<not> is_pattern l"
    and "strip_trailing P = P"
  shows "strip_trailing (preserved_prefix (strings_Join P [nl])) = P"
proof (cases "P = []")
  case True
  then show ?thesis
    using strip_snoc_blank [of "[]" "[]"]
    by (simp add: preserved_prefix_def not_pattern_Nil [unfolded is_pattern_def] blank_Nil strip_Nil)
next
  case False
  then have "strings_Split (strings_Join P [nl]) nl = P"
    using assms(1) by (simp add: Split_Join)
  then show ?thesis
    using assms(2,3) by (simp add: preserved_prefix_def cut_id)
qed

lemma reparse_managed:
  assumes "\<And>l. l \<in> set P \<Longrightarrow> nl \<notin> set l" "\<And>l. l \<in> set P \<Longrightarrow> \<not> is_pattern l"
    and "strip_trailing P = P"
  shows "strip_trailing (preserved_prefix (strings_Join (P @ managed_section order hs) [nl])) = P"
proof -
  define pat where "pat = strings_TrimSuffix enclosingPattern [nl]"
  define rest where "rest = managed_lines order hs
       @ [''#-----Do-not-add-hosts-after-this-line-----'', []]"
  have m: "managed_section order hs = [[], pat] @ rest"
    by (simp add: managed_section_def pat_def rest_def)
  have pat: "is_pattern pat"
    by (simp add: pat_def is_pattern_TrimSuffix)
  have pat_nl: "nl \<notin> set pat"
    unfolding pat_def TrimSuffix_pattern by (simp add: nl_def)
  have "strings_Split (strings_Join (P @ [[], pat] @ rest) [nl]) nl
      = concat (map (\<lambda>x. strings_Split x nl) (P @ [[], pat] @ rest))"
    by (rule Split_Join_concat) simp
  also have "\<dots> = concat (map (\<lambda>x. strings_Split x nl) P) @ [[], pat]
      @ concat (map (\<lambda>x. strings_Split x nl) rest)"
    using pat_nl by (simp add: Split_no_sep)
  also have "concat (map (\<lambda>x. strings_Split x nl) P) = P"
    using assms(1) by (rule Split_concat_id)
  finally have split: "strings_Split (strings_Join (P @ [[], pat] @ rest) [nl]) nl
      = P @ [[], pat] @ concat (map (\<lambda>x. strings_Split x nl) rest)" .
  have "cut_at_pattern (P @ [[], pat] @ ys) = P @ [[]]" for ys
    using assms(2) pat by (simp add: cut_takeWhile takeWhile_append2 not_pattern_Nil)
  with split have "preserved_prefix (strings_Join (P @ [[], pat] @ rest) [nl]) = P @ [[]]"
    by (simp only: preserved_prefix_def)
  then show ?thesis
    using assms(3) by (simp add: m strip_snoc_blank blank_Nil)
qed

lemma stripped_prefix_reparse:
  "strip_trailing (preserved_prefix (new_content order hs data)) = strip_trailing (preserved_prefix data)"
proof -
  let ?P = "strip_trailing (preserved_prefix data)"
  have a: "\<And>l. l \<in> set ?P \<Longrightarrow> nl \<notin> set l"
    using strip_subset prefix_no_nl by blast
  have b: "\<And>l. l \<in> set ?P \<Longrightarrow> \<not> is_pattern l"
    using strip_subset prefix_no_pattern by blast
  have c: "strip_trailing ?P = ?P"
    by (rule strip_idem)
  show ?thesis
  proof (cases "hs = []")
    case True
    then show ?thesis
      using reparse_empty [OF a b c] by (simp add: new_content_eq)
  next
    case False
    then show ?thesis
      using reparse_managed [OF a b c] by (simp add: new_content_eq)
  qed
qed

lemma new_content_depends:
  "strip_trailing (preserved_prefix d1) = strip_trailing (preserved_prefix d2) \<Longrightarrow>
   new_content order hs d1 = new_content order hs d2"
  by (simp add: new_content_eq)

lemma new_content_idem:
  "new_content order hs (new_content order' hs data) = new_content order hs data"
  by (rule new_content_depends) (rule stripped_prefix_reparse)

subsection \<open>Ranging over a map\<close>

lemma range_map_alt:
  "range_map ks m = map (\<lambda>k. (k, the (map_of m k))) (filter (\<lambda>k. map_of m k \<noteq> None) ks)"
  by (induction ks) (auto simp: range_map_def)

lemma range_map_set:
  assumes "distinct (map fst m)" "set ks = set (map fst m)"
  shows "set (range_map ks m) = set m"
proof
  show "set (range_map ks m) \<subseteq> set m"
    by (auto simp: range_map_alt dest: map_of_SomeD)
next
  show "set m \<subseteq> set (range_map ks m)"
  proof
    fix kv assume kv: "kv \<in> set m"
    obtain k v where [simp]: "kv = (k, v)" by (cases kv)
    from kv assms(1) have "map_of m k = Some v" by simp
    moreover from kv assms(2) have "k \<in> set ks" by force
    ultimately show "kv \<in> set (range_map ks m)"
      by (force simp: range_map_alt)
  qed
qed

lemma range_map_fst: "map fst (range_map ks m) = filter (\<lambda>k. map_of m k \<noteq> None) ks"
  by (simp add: range_map_alt comp_def)

lemma range_map_mset:
  assumes "distinct (map fst m)" "iteration_order ks m"
  shows "mset (range_map ks m) = mset m"
proof -
  have "distinct (map fst (range_map ks m))"
    using assms(2) by (simp add: range_map_fst iteration_order_def)
  then have "distinct (range_map ks m)"
    by (rule distinct_map [THEN iffD1, THEN conjunct1])
  moreover have "distinct m"
    using assms(1) by (rule distinct_map [THEN iffD1, THEN conjunct1])
  moreover have "set (range_map ks m) = set m"
    using assms by (simp add: range_map_set iteration_order_def)
  ultimately show ?thesis
    by (simp add: set_eq_iff_mset_eq_distinct)
qed

lemma mset_concat_sum: "mset (concat xs) = sum_mset (image_mset mset (mset xs))"
  by (induction xs) simp_all

lemma mset_concat_cong: "mset xs = mset ys \<Longrightarrow> mset (concat xs) = mset (concat ys)"
  by (simp add: mset_concat_sum)

section \<open>updateHostsFile: what every call does\<close>

lemma aux_path_differs: "p @ ''.aux'' \<noteq> p"
  by simp

lemma updateHostsFile_stdout:
  "stdout (snd (updateHostsFile env h w)) =
     stdout w @ [if hosts h = [] then ''Removing all hosts before exit...'' @ [nl]
                 else ''Updating hosts file with:'' @ [nl]]
       @ map print_line (concat (map snd (range_map (print_order env) (hosts h))))"
  by (auto simp: updateHostsFile_def os_ReadFile_def os_WriteFile_def os_Rename_def Let_def
      split: option.splits write_outcome.splits bool.splits prod.splits if_splits)

lemma updateHostsFile_stderr: "stderr (snd (updateHostsFile env h w)) = stderr w"
  by (auto simp: updateHostsFile_def os_ReadFile_def os_WriteFile_def os_Rename_def Let_def
      split: option.splits write_outcome.splits bool.splits prod.splits if_splits)

lemma print_line_not_banner: "\<not> is_banner (print_line a)"
  by (simp add: is_banner_def print_line_def)

lemma banner_is_banner:
  "is_banner (if hs = [] then ''Removing all hosts before exit...'' @ [nl]
              else ''Updating hosts file with:'' @ [nl])"
  by (simp add: is_banner_def)

lemma render_count_updateHostsFile:
  "render_count (snd (updateHostsFile env h w)) = render_count w + 1"
proof -
  have "filter is_banner (map print_line xs) = []" for xs
    by (simp add: filter_empty_conv print_line_not_banner)
  then show ?thesis
    using banner_is_banner [of "hosts h"]
    by (simp add: render_count_def updateHostsFile_stdout)
qed

lemma updateHostsFile_ok:
  assumes "io_ok env" "files w (hostsPath h) = Some data"
  shows "fst (updateHostsFile env h w) = None"
    and "files (snd (updateHostsFile env h w)) =
      (files w)(hostsPath h @ ''.aux'' := None,
        hostsPath h \<mapsto> new_content (lines_order env) (hosts h) data)"
  using assms
  by (simp_all add: io_ok_def updateHostsFile_def os_ReadFile_def os_WriteFile_def os_Rename_def Let_def)

lemma updateHostsFile_write_fails:
  assumes "read_ok env" "files w (hostsPath h) = Some data" "write_res env \<noteq> WriteOK"
  shows "fst (updateHostsFile env h w) = Some (Error ''failed to write aux file'')"
    and "files (snd (updateHostsFile env h w)) (hostsPath h) = Some data"
  using assms
  by (simp_all add: updateHostsFile_def os_ReadFile_def os_WriteFile_def Let_def
      split: write_outcome.splits)

section \<open>Lemmas for the claims about rendering\<close>

lemma managed_lines_mset:
  assumes "distinct (map fst hs)" "iteration_order order hs"
  shows "mset (managed_lines order hs) = image_mset host_line (mset (concat (map snd hs)))"
proof -
  have "mset (map snd (range_map order hs)) = mset (map snd hs)"
    using range_map_mset [OF assms] by (metis mset_map)
  then have "mset (concat (map snd (range_map order hs))) = mset (concat (map snd hs))"
    by (rule mset_concat_cong)
  then show ?thesis
    by (simp add: managed_lines_def)
qed

lemma render_ok_file:
  assumes "io_ok env" "files w (hostsPath h) = Some data"
  shows "files (snd (updateHostsFile env h w)) (hostsPath h)
           = Some (new_content (lines_order env) (hosts h) data)"
  using updateHostsFile_ok(2) [OF assms] by simp

lemma stripped_no_nl: "l \<in> set (strip_trailing (preserved_prefix data)) \<Longrightarrow> nl \<notin> set l"
  using strip_subset prefix_no_nl by blast

lemma stripped_no_pattern: "l \<in> set (strip_trailing (preserved_prefix data)) \<Longrightarrow> \<not> is_pattern l"
  using strip_subset prefix_no_pattern by blast

lemma Split_Join_stripped:
  "strings_Split (strings_Join (strip_trailing (preserved_prefix data)) [nl]) nl =
     (if strip_trailing (preserved_prefix data) = [] then [[]]
      else strip_trailing (preserved_prefix data))"
  by (simp add: Split_Join stripped_no_nl)

lemma new_content_prefix:
  "prefix (strings_Join (strip_trailing (preserved_prefix data)) [nl]) (new_content order hs data)"
  by (simp add: new_content_eq Join_prefix)

lemma pattern_cut_shorter:
  "p \<in> set xs \<Longrightarrow> is_pattern p \<Longrightarrow> length (cut_at_pattern xs) < length xs"
  by (induction xs) (auto simp: is_pattern_def)

lemma Join_nonempty: "xs \<noteq> [] \<Longrightarrow> last xs \<noteq> [] \<Longrightarrow> strings_Join xs sep \<noteq> []"
  by (induction xs sep rule: strings_Join.induct) auto

lemma last_Join: "xs \<noteq> [] \<Longrightarrow> last xs \<noteq> [] \<Longrightarrow> last (strings_Join xs sep) = last (last xs)"
  by (induction xs sep rule: strings_Join.induct) (auto simp: Join_nonempty)

lemma cut_is_take: "cut_at_pattern xs = take (length (cut_at_pattern xs)) xs"
  by (induction xs) auto

lemma stripped_is_take:
  "strip_trailing (preserved_prefix data)
     = take (length (strip_trailing (preserved_prefix data))) (strings_Split data nl)"
proof -
  let ?L = "strings_Split data nl"
  let ?P = "strip_trailing (preserved_prefix data)"
  have "?P = take (length ?P) (cut_at_pattern ?L)"
    unfolding preserved_prefix_def by (rule strip_is_take)
  also have "\<dots> = take (length ?P) (take (length (cut_at_pattern ?L)) ?L)"
    using cut_is_take [of ?L] by simp
  also have "\<dots> = take (length ?P) ?L"
    using strip_prefix [of "cut_at_pattern ?L"]
    by (simp add: preserved_prefix_def prefix_length_le min_absorb1)
  finally show ?thesis .
qed

section \<open>Lemmas for the claims about resolution and events\<close>

lemma fold_update_keys:
  "fst ` set (fold (\<lambda>alias s. AList.update alias True s) as s) = set as \<union> fst ` set s"
  by (induction as arbitrary: s) (auto simp: dom_update)

lemma fold_update_distinct:
  "distinct (map fst s) \<Longrightarrow> distinct (map fst (fold (\<lambda>alias s. AList.update alias True s) as s))"
  by (induction as arbitrary: s) (auto simp: distinct_update)

lemma domainsSet_keys: "fst ` set (domainsSet as n h) = set as \<union> {n, h}"
  by (auto simp: domainsSet_def Let_def dom_update fold_update_keys)

lemma domainsSet_distinct: "distinct (map fst (domainsSet as n h))"
  by (simp add: domainsSet_def Let_def distinct_update fold_update_distinct)

lemma range_map_keys:
  assumes "iteration_order ks m"
  shows "map fst (range_map ks m) = ks"
proof -
  have "map_of m k \<noteq> None" if "k \<in> set ks" for k
    using that assms by (simp add: iteration_order_def map_of_eq_None_iff)
  then show ?thesis
    by (simp add: range_map_fst)
qed

lemma networks_loop_append:
  "networks_loop dord cn ch xs result =
     result @ networks_loop dord cn ch xs []"
proof (induction xs arbitrary: result)
  case Nil
  then show ?case by simp
next
  case (Cons x xs)
  obtain n network where x: "x = (n, network)" by (cases x)
  show ?case
    using Cons.IH [of result] Cons.IH [of "result @ [r]" for r] Cons.IH [of "[r]" for r]
    by (simp add: x Let_def)
qed

lemma networks_loop_records:
  assumes "list_all (\<lambda>(n, network). ep_Aliases network = [] \<or>
             iteration_order (dord n) (domainsSet (ep_Aliases network) cn ch)) xs"
  shows "list_all2 (is_network_record cn ch) (filter has_aliases xs) (networks_loop dord cn ch xs [])"
  using assms
proof (induction xs)
  case Nil
  then show ?case by simp
next
  case (Cons x xs)
  obtain n network where x: "x = (n, network)" by (cases x)
  from Cons have IH: "list_all2 (is_network_record cn ch) (filter has_aliases xs) (networks_loop dord cn ch xs [])"
    by simp
  show ?case
  proof (cases "ep_Aliases network = []")
    case True
    with IH show ?thesis by (simp add: x has_aliases_def)
  next
    case False
    with Cons.prems have it: "iteration_order (dord n) (domainsSet (ep_Aliases network) cn ch)"
      by (simp add: x)
    let ?ds = "map fst (range_map (dord n) (domainsSet (ep_Aliases network) cn ch))"
    have ds: "?ds = dord n"
      using it by (rule range_map_keys)
    have "distinct (dord n)" "set (dord n) = set (ep_Aliases network) \<union> {cn, ch}"
      using it domainsSet_keys [of "ep_Aliases network" cn ch]
      by (simp_all add: iteration_order_def)
    then have r: "is_network_record cn ch (n, network)
        \<lparr>IP = ep_IPAddress network, Name = cn, Domains = ?ds\<rparr>"
      by (simp add: is_network_record_def ds)
    have "networks_loop dord cn ch (x # xs) [] =
        \<lparr>IP = ep_IPAddress network, Name = cn, Domains = ?ds\<rparr> # networks_loop dord cn ch xs []"
      using False networks_loop_append [of dord cn ch xs "[r]" for r]
      by (simp add: x Let_def)
    with r IH False show ?thesis
      by (simp add: x has_aliases_def)
  qed
qed

lemma getContainerData_Some:
  "ContainerInspect env cid = Some info \<Longrightarrow>
   getContainerData env cid =
     Inr (networks_loop (domains_order env) (display_name info) (Config_Hostname info)
            (range_map (networks_order env) (NetworkSettings_Networks info)) []
          @ legacy_records info)"
  by (simp add: getContainerData_def Let_def legacy_records_def display_name_def)

lemma list_all_mset_cong: "mset xs = mset ys \<Longrightarrow> list_all P xs = list_all P ys"
  by (metis list_all_iff set_mset_mset)

lemma onStop_present:
  assumes "map_of (hosts h) actorID \<noteq> None"
  shows "fst (onStop renv h w actorID) = h\<lparr>hosts := AList.delete actorID (hosts h)\<rparr>"
    and "files (snd (onStop renv h w actorID))
          = files (snd (updateHostsFile renv (h\<lparr>hosts := AList.delete actorID (hosts h)\<rparr>) w))"
    and "stdout (snd (onStop renv h w actorID))
          = stdout (snd (updateHostsFile renv (h\<lparr>hosts := AList.delete actorID (hosts h)\<rparr>) w))"
  using assms
  by (auto simp: onStop_def Let_def split: prod.splits option.splits)

lemma onStart_resolved:
  assumes "getContainerData denv actorID = Inr containerData"
  shows "fst (onStart denv renv h w actorID) = h\<lparr>hosts := AList.update actorID containerData (hosts h)\<rparr>"
    and "files (snd (onStart denv renv h w actorID))
          = files (snd (updateHostsFile renv (h\<lparr>hosts := AList.update actorID containerData (hosts h)\<rparr>) w))"
    and "stdout (snd (onStart denv renv h w actorID))
          = stdout (snd (updateHostsFile renv (h\<lparr>hosts := AList.update actorID containerData (hosts h)\<rparr>) w))"
  using assms
  by (auto simp: onStart_def Let_def split: prod.splits option.splits)

lemma render_count_cong: "stdout w = stdout w' \<Longrightarrow> render_count w = render_count w'"
  by (simp add: render_count_def)

lemma handle_event_distinct:
  "distinct (map fst (hosts h)) \<Longrightarrow> distinct (map fst (hosts (fst (handle_event denv renv h w ev))))"
  by (auto simp: handle_event_def onStart_def onStop_def Let_def distinct_update distinct_delete
      split: sum.splits prod.splits option.splits)

text \<open>
  Two facts about every resolution: a legacy IP that is not empty gets its record, last
  in the result; and every record carries the display name, as its name and among its
  domains.
\<close>

lemma legacy_record_emitted:
  assumes "ContainerInspect env containerID = Some info" "NetworkSettings_IPAddress info \<noteq> []"
  shows "\<exists>recs. getContainerData env containerID =
           Inr (recs @ [\<lparr>IP = NetworkSettings_IPAddress info, Name = display_name info,
                          Domains = [display_name info, Config_Hostname info]\<rparr>])"
  using assms by (simp add: getContainerData_Some legacy_records_def)

lemma records_name_in_domains:
  assumes "ContainerInspect env containerID = Some info"
    and "distinct (map fst (NetworkSettings_Networks info))"
    and "iteration_order (networks_order env) (NetworkSettings_Networks info)"
    and "domain_orders_valid env info"
    and "getContainerData env containerID = Inr result" "r \<in> set result"
  shows "display_name info \<in> set (Domains r) \<and> Name r = display_name info"
proof -
  let ?nets = "NetworkSettings_Networks info"
  let ?it = "range_map (networks_order env) ?nets"
  let ?recs = "networks_loop (domains_order env) (display_name info) (Config_Hostname info) ?it []"
  have m: "mset ?it = mset ?nets"
    using assms(2,3) by (rule range_map_mset)
  have "list_all (\<lambda>(n, network). ep_Aliases network = [] \<or>
             iteration_order (domains_order env n)
               (domainsSet (ep_Aliases network) (display_name info) (Config_Hostname info))) ?it"
    using assms(4) list_all_mset_cong [OF m] by (simp add: domain_orders_valid_def)
  then have l: "list_all2 (is_network_record (display_name info) (Config_Hostname info))
      (filter has_aliases ?it) ?recs"
    by (rule networks_loop_records)
  have "result = ?recs @ legacy_records info"
    using assms(1,5) by (simp add: getContainerData_Some)
  with assms(6) consider "r \<in> set ?recs" | "r \<in> set (legacy_records info)"
    by auto
  then show ?thesis
  proof cases
    case 1
    then obtain i where "i < length ?recs" "?recs ! i = r"
      by (auto simp: in_set_conv_nth)
    with l have "is_network_record (display_name info) (Config_Hostname info)
        (filter has_aliases ?it ! i) r"
      by (auto dest: list_all2_nthD2)
    then show ?thesis
      by (cases "filter has_aliases ?it ! i") (auto simp: is_network_record_def)
  next
    case 2
    then show ?thesis
      by (auto simp: legacy_records_def split: if_splits)
  qed
qed

section \<open>The claims\<close>

text \<open>
  C1. When the step that writes the auxiliary file fails (the hosts file was read, and
  \<^verbatim>\<open>os.WriteFile\<close> returns an error, before or after writing some bytes), the function
  returns the error of that step, the hosts file holds the bytes it held before, and no
  path other than the auxiliary one has changed: the rename is never reached.
\<close>

theorem write_failure_keeps_target:
  assumes "read_ok env" "files w (hostsPath h) = Some data" "write_res env \<noteq> WriteOK"
  shows "fst (updateHostsFile env h w) = Some (Error ''failed to write aux file'')
       \<and> files (snd (updateHostsFile env h w)) (hostsPath h) = files w (hostsPath h)
       \<and> (files (snd (updateHostsFile env h w)))(hostsPath h @ ''.aux'' := None)
           = (files w)(hostsPath h @ ''.aux'' := None)"
  using assms
  by (simp add: updateHostsFile_def os_ReadFile_def os_WriteFile_def Let_def
      split: write_outcome.splits)

theorem write_failure_keeps_target_witness:
  "read_ok (ex_env [''a'', ''b''] (WriteFailsAfter 5))
   \<and> files (ex_world ex_hosts_file) (hostsPath (ex_hoster ex_registry)) = Some ex_hosts_file
   \<and> write_res (ex_env [''a'', ''b''] (WriteFailsAfter 5)) \<noteq> WriteOK
   \<and> fst (updateHostsFile (ex_env [''a'', ''b''] (WriteFailsAfter 5)) (ex_hoster ex_registry)
          (ex_world ex_hosts_file)) = Some (Error ''failed to write aux file'')
   \<and> files (snd (updateHostsFile (ex_env [''a'', ''b''] (WriteFailsAfter 5)) (ex_hoster ex_registry)
          (ex_world ex_hosts_file))) ''/etc/hosts'' = Some ex_hosts_file
   \<and> files (snd (updateHostsFile (ex_env [''a'', ''b''] (WriteFailsAfter 5)) (ex_hoster ex_registry)
          (ex_world ex_hosts_file))) ''/etc/hosts.aux'' = Some ''127.0''"
proof -
  have r: "read_ok (ex_env [''a'', ''b''] (WriteFailsAfter 5))"
    by (simp add: ex_env_def)
  have f: "files (ex_world ex_hosts_file) (hostsPath (ex_hoster ex_registry)) = Some ex_hosts_file"
    by (simp add: ex_world_def ex_hoster_def)
  have n: "write_res (ex_env [''a'', ''b''] (WriteFailsAfter 5)) \<noteq> WriteOK"
    by (simp add: ex_env_def)
  have a: "files (snd (updateHostsFile (ex_env [''a'', ''b''] (WriteFailsAfter 5)) (ex_hoster ex_registry)
          (ex_world ex_hosts_file))) ''/etc/hosts.aux'' = Some ''127.0''"
    by code_simp
  show ?thesis
    using write_failure_keeps_target [OF r f n] r f n a
    by (simp add: ex_hoster_def)
qed

text \<open>
  C2 (as amended). Two renders in a row with the registry unchanged, both successful:
  each writes the stripped preserved prefix followed by the managed section in the order
  its \<^verbatim>\<open>range\<close> loop visited the registry. The managed lines of the two renders are
  equal as multisets, and when the second loop visits the registry in the order of the
  first, the file content after the second render is that after the first. The order
  itself is not fixed by the registry: see the counterexample.
\<close>

theorem render_twice:
  assumes "io_ok env1" "io_ok env2" "files w (hostsPath h) = Some data"
    and "distinct (map fst (hosts h))"
    and "iteration_order (lines_order env1) (hosts h)"
    and "iteration_order (lines_order env2) (hosts h)"
  shows "files (snd (updateHostsFile env1 h w)) (hostsPath h)
           = Some (strings_Join (strip_trailing (preserved_prefix data)
               @ (if hosts h = [] then [] else managed_section (lines_order env1) (hosts h))) [nl])
       \<and> files (snd (updateHostsFile env2 h (snd (updateHostsFile env1 h w)))) (hostsPath h)
           = Some (strings_Join (strip_trailing (preserved_prefix data)
               @ (if hosts h = [] then [] else managed_section (lines_order env2) (hosts h))) [nl])
       \<and> mset (managed_lines (lines_order env2) (hosts h))
           = mset (managed_lines (lines_order env1) (hosts h))
       \<and> (lines_order env2 = lines_order env1 \<longrightarrow>
            files (snd (updateHostsFile env2 h (snd (updateHostsFile env1 h w)))) (hostsPath h)
              = files (snd (updateHostsFile env1 h w)) (hostsPath h))"
proof -
  let ?w1 = "snd (updateHostsFile env1 h w)"
  let ?c1 = "new_content (lines_order env1) (hosts h) data"
  have f1: "files ?w1 (hostsPath h) = Some ?c1"
    using assms(1,3) by (rule render_ok_file)
  have f2: "files (snd (updateHostsFile env2 h ?w1)) (hostsPath h)
      = Some (new_content (lines_order env2) (hosts h) ?c1)"
    using assms(2) f1 by (rule render_ok_file)
  have c2: "new_content (lines_order env2) (hosts h) ?c1 = new_content (lines_order env2) (hosts h) data"
    by (rule new_content_idem)
  have m: "mset (managed_lines (lines_order env2) (hosts h))
      = mset (managed_lines (lines_order env1) (hosts h))"
    using assms(4,5,6) by (simp add: managed_lines_mset)
  show ?thesis
    using f1 f2 c2 m by (simp add: new_content_eq)
qed

theorem render_twice_witness:
  "io_ok (ex_env [''b'', ''a''] WriteOK)
   \<and> files (ex_world ex_hosts_file) (hostsPath (ex_hoster ex_registry)) = Some ex_hosts_file
   \<and> distinct (map fst (hosts (ex_hoster ex_registry)))
   \<and> iteration_order (lines_order (ex_env [''b'', ''a''] WriteOK)) (hosts (ex_hoster ex_registry))
   \<and> files (snd (updateHostsFile (ex_env [''b'', ''a''] WriteOK) (ex_hoster ex_registry)
        (snd (updateHostsFile (ex_env [''b'', ''a''] WriteOK) (ex_hoster ex_registry)
           (ex_world ex_hosts_file))))) ''/etc/hosts''
     = files (snd (updateHostsFile (ex_env [''b'', ''a''] WriteOK) (ex_hoster ex_registry)
           (ex_world ex_hosts_file))) ''/etc/hosts''
   \<and> files (snd (updateHostsFile (ex_env [''b'', ''a''] WriteOK) (ex_hoster ex_registry)
           (ex_world ex_hosts_file))) ''/etc/hosts''
     = Some (strings_Join
         [''127.0.0.1 localhost'', [], ''#-----------Docker-Hoster-Domains----------'',
          ''10.0.0.3    b'', ''10.0.0.2    a'',
          ''#-----Do-not-add-hosts-after-this-line-----'', []] [nl])"
proof -
  have ok: "io_ok (ex_env [''b'', ''a''] WriteOK)"
    by (simp add: io_ok_def ex_env_def)
  have f: "files (ex_world ex_hosts_file) (hostsPath (ex_hoster ex_registry)) = Some ex_hosts_file"
    by (simp add: ex_world_def ex_hoster_def)
  have d: "distinct (map fst (hosts (ex_hoster ex_registry)))"
    by (simp add: ex_hoster_def ex_registry_def)
  have it: "iteration_order (lines_order (ex_env [''b'', ''a''] WriteOK)) (hosts (ex_hoster ex_registry))"
    by (auto simp: iteration_order_def ex_env_def ex_hoster_def ex_registry_def)
  have v: "files (snd (updateHostsFile (ex_env [''b'', ''a''] WriteOK) (ex_hoster ex_registry)
           (ex_world ex_hosts_file))) ''/etc/hosts''
     = Some (strings_Join
         [''127.0.0.1 localhost'', [], ''#-----------Docker-Hoster-Domains----------'',
          ''10.0.0.3    b'', ''10.0.0.2    a'',
          ''#-----Do-not-add-hosts-after-this-line-----'', []] [nl])"
    by code_simp
  show ?thesis
    using render_twice [OF ok ok f d it it] ok f d it v
    by (simp add: ex_hoster_def)
qed

text \<open>
  C2 as stated fails: the registry of two containers, rendered twice without a change;
  the first loop visits \<open>a\<close> before \<open>b\<close>, the second \<open>b\<close> before \<open>a\<close>, and the two files
  differ.
\<close>

theorem render_twice_counterexample:
  "iteration_order [''a'', ''b''] ex_registry
   \<and> iteration_order [''b'', ''a''] ex_registry
   \<and> fst (updateHostsFile (ex_env [''a'', ''b''] WriteOK) (ex_hoster ex_registry)
        (ex_world ex_hosts_file)) = None
   \<and> fst (updateHostsFile (ex_env [''b'', ''a''] WriteOK) (ex_hoster ex_registry)
        (snd (updateHostsFile (ex_env [''a'', ''b''] WriteOK) (ex_hoster ex_registry)
           (ex_world ex_hosts_file)))) = None
   \<and> files (snd (updateHostsFile (ex_env [''b'', ''a''] WriteOK) (ex_hoster ex_registry)
        (snd (updateHostsFile (ex_env [''a'', ''b''] WriteOK) (ex_hoster ex_registry)
           (ex_world ex_hosts_file))))) ''/etc/hosts''
     \<noteq> files (snd (updateHostsFile (ex_env [''a'', ''b''] WriteOK) (ex_hoster ex_registry)
           (ex_world ex_hosts_file))) ''/etc/hosts''"
  by code_simp

text \<open>
  C3 (as amended). After a successful render the file holds the new content; its
  preserved prefix, with trailing blank lines removed, is that of the file before the
  render, with trailing blank lines removed; and the new content starts with exactly
  these lines, joined by newlines.
\<close>

theorem prefix_preserved_up_to_blank_lines:
  assumes "io_ok env" "files w (hostsPath h) = Some data"
  shows "fst (updateHostsFile env h w) = None
       \<and> files (snd (updateHostsFile env h w)) (hostsPath h)
           = Some (new_content (lines_order env) (hosts h) data)
       \<and> strip_trailing (preserved_prefix (new_content (lines_order env) (hosts h) data))
           = strip_trailing (preserved_prefix data)
       \<and> prefix (strings_Join (strip_trailing (preserved_prefix data)) [nl])
           (new_content (lines_order env) (hosts h) data)"
  using updateHostsFile_ok(1) [OF assms] render_ok_file [OF assms]
  by (simp add: stripped_prefix_reparse new_content_prefix)

theorem prefix_preserved_up_to_blank_lines_witness:
  "io_ok (ex_env [''a'', ''b''] WriteOK)
   \<and> files (ex_world ex_blank_file) (hostsPath (ex_hoster ex_registry)) = Some ex_blank_file
   \<and> files (snd (updateHostsFile (ex_env [''a'', ''b''] WriteOK) (ex_hoster ex_registry)
         (ex_world ex_blank_file))) ''/etc/hosts''
       = Some (new_content [''a'', ''b''] ex_registry ex_blank_file)
   \<and> strip_trailing (preserved_prefix (new_content [''a'', ''b''] ex_registry ex_blank_file))
       = strip_trailing (preserved_prefix ex_blank_file)
   \<and> strip_trailing (preserved_prefix ex_blank_file) = [''127.0.0.1 localhost'']"
proof -
  have ok: "io_ok (ex_env [''a'', ''b''] WriteOK)"
    by (simp add: io_ok_def ex_env_def)
  have f: "files (ex_world ex_blank_file) (hostsPath (ex_hoster ex_registry)) = Some ex_blank_file"
    by (simp add: ex_world_def ex_hoster_def)
  have v: "strip_trailing (preserved_prefix ex_blank_file) = [''127.0.0.1 localhost'']"
    by code_simp
  show ?thesis
    using prefix_preserved_up_to_blank_lines [OF ok f] ok f v
    by (simp add: ex_hoster_def ex_env_def)
qed

text \<open>
  C3 as stated fails: a hosts file that ends in blank lines, rendered with two
  containers. The lines before the pattern were the host line and three empty lines;
  after the render they are the host line and one empty line.
\<close>

theorem prefix_preserved_counterexample:
  "fst (updateHostsFile (ex_env [''a'', ''b''] WriteOK) (ex_hoster ex_registry)
         (ex_world ex_blank_file)) = None
   \<and> files (snd (updateHostsFile (ex_env [''a'', ''b''] WriteOK) (ex_hoster ex_registry)
         (ex_world ex_blank_file))) ''/etc/hosts'' = Some ex_managed_file
   \<and> preserved_prefix ex_managed_file = [''127.0.0.1 localhost'', []]
   \<and> preserved_prefix ex_blank_file = [''127.0.0.1 localhost'', [], [], []]
   \<and> preserved_prefix ex_managed_file \<noteq> preserved_prefix ex_blank_file"
  by code_simp

text \<open>
  C4. For a hosts file that has a line equal to the start marker, a successful render
  with the empty registry, and so a successful \<^const>\<open>handleShutdown\<close> from any
  registry, leaves the file with exactly the lines of the preserved prefix, trailing
  blank lines removed, joined by newlines: the lines of the new file are these lines,
  none of them is the start marker, and they stop before the marker line of the old file
  (so the marker, the managed lines and the end marker after it are gone). The registry
  is empty after the shutdown and nothing is reported on standard error.
\<close>

theorem empty_registry_removes_section:
  assumes "io_ok env" "files w (hostsPath h) = Some data"
    and "strings_TrimSuffix enclosingPattern [nl] \<in> set (strings_Split data nl)"
  shows "fst (updateHostsFile env (h\<lparr>hosts := []\<rparr>) w) = None
       \<and> files (snd (updateHostsFile env (h\<lparr>hosts := []\<rparr>) w)) (hostsPath h)
           = Some (strings_Join (strip_trailing (preserved_prefix data)) [nl])
       \<and> hosts (fst (handleShutdown env h w)) = []
       \<and> files (snd (handleShutdown env h w)) (hostsPath h)
           = Some (strings_Join (strip_trailing (preserved_prefix data)) [nl])
       \<and> stderr (snd (handleShutdown env h w)) = stderr w
       \<and> strings_Split (strings_Join (strip_trailing (preserved_prefix data)) [nl]) nl
           = (if strip_trailing (preserved_prefix data) = [] then [[]]
              else strip_trailing (preserved_prefix data))
       \<and> strings_TrimSuffix enclosingPattern [nl]
           \<notin> set (strings_Split (strings_Join (strip_trailing (preserved_prefix data)) [nl]) nl)
       \<and> length (strip_trailing (preserved_prefix data)) < length (strings_Split data nl)"
proof -
  let ?h = "h\<lparr>hosts := []\<rparr>"
  let ?P = "strip_trailing (preserved_prefix data)"
  have f: "files w (hostsPath ?h) = Some data"
    using assms(2) by simp
  have e: "fst (updateHostsFile env ?h w) = None"
    using assms(1) f by (rule updateHostsFile_ok(1))
  have c: "files (snd (updateHostsFile env ?h w)) (hostsPath h) = Some (strings_Join ?P [nl])"
    using render_ok_file [OF assms(1) f] by (simp add: new_content_eq)
  obtain e' w' where u: "updateHostsFile env ?h w = (e', w')"
    by (cases "updateHostsFile env ?h w")
  with e have "e' = None" by simp
  with u have s: "handleShutdown env h w = (?h, snd (updateHostsFile env ?h w))"
    by (simp add: handleShutdown_def Let_def)
  have np: "strings_TrimSuffix enclosingPattern [nl] \<notin> set (strings_Split (strings_Join ?P [nl]) nl)"
    using stripped_no_pattern [of "strings_TrimSuffix enclosingPattern [nl]" data]
      is_pattern_TrimSuffix not_pattern_Nil
    by (auto simp: Split_Join_stripped)
  have "length ?P \<le> length (preserved_prefix data)"
    by (metis strip_prefix prefix_length_le)
  moreover have "length (preserved_prefix data) < length (strings_Split data nl)"
    unfolding preserved_prefix_def
    using assms(3) is_pattern_TrimSuffix by (rule pattern_cut_shorter)
  ultimately have l: "length ?P < length (strings_Split data nl)"
    by simp
  show ?thesis
    using e c s np l by (simp add: Split_Join_stripped updateHostsFile_stderr)
qed

theorem empty_registry_removes_section_witness:
  "io_ok (ex_env [] WriteOK)
   \<and> files (ex_world ex_managed_file) (hostsPath (ex_hoster ex_registry)) = Some ex_managed_file
   \<and> strings_TrimSuffix enclosingPattern [nl] \<in> set (strings_Split ex_managed_file nl)
   \<and> hosts (fst (handleShutdown (ex_env [] WriteOK) (ex_hoster ex_registry) (ex_world ex_managed_file))) = []
   \<and> files (snd (handleShutdown (ex_env [] WriteOK) (ex_hoster ex_registry) (ex_world ex_managed_file)))
        ''/etc/hosts'' = Some ''127.0.0.1 localhost''
   \<and> strings_Split ''127.0.0.1 localhost'' nl = [''127.0.0.1 localhost'']"
proof -
  have ok: "io_ok (ex_env [] WriteOK)"
    by (simp add: io_ok_def ex_env_def)
  have f: "files (ex_world ex_managed_file) (hostsPath (ex_hoster ex_registry)) = Some ex_managed_file"
    by (simp add: ex_world_def ex_hoster_def)
  have m: "strings_TrimSuffix enclosingPattern [nl] \<in> set (strings_Split ex_managed_file nl)"
    by code_simp
  have v: "strings_Join (strip_trailing (preserved_prefix ex_managed_file)) [nl] = ''127.0.0.1 localhost''"
    by code_simp
  have s: "strings_Split ''127.0.0.1 localhost'' nl = [''127.0.0.1 localhost'']"
    by code_simp
  from empty_registry_removes_section [OF ok f m]
  have "hosts (fst (handleShutdown (ex_env [] WriteOK) (ex_hoster ex_registry) (ex_world ex_managed_file))) = []"
    and "files (snd (handleShutdown (ex_env [] WriteOK) (ex_hoster ex_registry) (ex_world ex_managed_file)))
        (hostsPath (ex_hoster ex_registry))
        = Some (strings_Join (strip_trailing (preserved_prefix ex_managed_file)) [nl])"
    by blast+
  then have "hosts (fst (handleShutdown (ex_env [] WriteOK) (ex_hoster ex_registry) (ex_world ex_managed_file))) = []"
    and "files (snd (handleShutdown (ex_env [] WriteOK) (ex_hoster ex_registry) (ex_world ex_managed_file)))
        ''/etc/hosts'' = Some ''127.0.0.1 localhost''"
    using v by (simp_all add: ex_hoster_def)
  with ok f m s show ?thesis
    by (intro conjI)
qed

text \<open>
  C10. For a hosts file whose preserved prefix has a non-blank line, the last of them
  followed by a newline (another line comes after it in the file), a successful render
  with the empty registry writes the prefix lines up to that line joined by newlines and
  nothing more: the new content is not empty, its last byte is not a newline, and the old
  file went on with a newline where the new one ends.
\<close>

theorem empty_render_drops_final_newline:
  assumes "io_ok env" "hosts h = []" "files w (hostsPath h) = Some data"
    and "strip_trailing (preserved_prefix data) \<noteq> []"
    and "length (strip_trailing (preserved_prefix data)) < length (strings_Split data nl)"
  shows "fst (updateHostsFile env h w) = None
       \<and> files (snd (updateHostsFile env h w)) (hostsPath h)
           = Some (strings_Join (strip_trailing (preserved_prefix data)) [nl])
       \<and> strings_Join (strip_trailing (preserved_prefix data)) [nl] \<noteq> []
       \<and> last (strings_Join (strip_trailing (preserved_prefix data)) [nl]) \<noteq> nl
       \<and> prefix (strings_Join (strip_trailing (preserved_prefix data)) [nl] @ [nl]) data"
proof -
  let ?L = "strings_Split data nl"
  let ?P = "strip_trailing (preserved_prefix data)"
  have e: "fst (updateHostsFile env h w) = None"
    using assms(1,3) by (rule updateHostsFile_ok(1))
  have c: "files (snd (updateHostsFile env h w)) (hostsPath h) = Some (strings_Join ?P [nl])"
    using render_ok_file [OF assms(1,3)] assms(2) by (simp add: new_content_eq)
  have nb: "\<not> blank (last ?P)"
    using assms(4) by (rule strip_last_nonblank)
  then have ne: "last ?P \<noteq> []"
    using blank_Nil by auto
  have "last ?P \<in> set ?P"
    using assms(4) by simp
  then have "nl \<notin> set (last ?P)"
    by (rule stripped_no_nl)
  then have ln: "last (last ?P) \<noteq> nl"
    using ne last_in_set by metis
  have j: "strings_Join ?P [nl] \<noteq> []"
    using assms(4) ne by (rule Join_nonempty)
  have lj: "last (strings_Join ?P [nl]) \<noteq> nl"
    using ln by (simp add: last_Join [OF assms(4) ne])
  have t: "?P = take (length ?P) ?L"
    by (rule stripped_is_take)
  have d: "drop (length ?P) ?L \<noteq> []"
    using assms(5) by simp
  have "data = strings_Join (take (length ?P) ?L @ drop (length ?P) ?L) [nl]"
    by (simp add: Join_Split)
  also have "\<dots> = strings_Join ?P [nl] @ [nl] @ strings_Join (drop (length ?P) ?L) [nl]"
    using Join_append [of "take (length ?P) ?L" "drop (length ?P) ?L" "[nl]"] assms(4) d t
    by simp
  finally have "prefix (strings_Join ?P [nl] @ [nl]) data"
    by (metis append.assoc prefixI)
  with e c j lj show ?thesis by simp
qed

theorem empty_render_drops_final_newline_witness:
  "io_ok (ex_env [] WriteOK)
   \<and> hosts (ex_hoster []) = []
   \<and> files (ex_world ex_hosts_file) (hostsPath (ex_hoster [])) = Some ex_hosts_file
   \<and> strip_trailing (preserved_prefix ex_hosts_file) \<noteq> []
   \<and> length (strip_trailing (preserved_prefix ex_hosts_file)) < length (strings_Split ex_hosts_file nl)
   \<and> ex_hosts_file = ''127.0.0.1 localhost'' @ [nl]
   \<and> files (snd (updateHostsFile (ex_env [] WriteOK) (ex_hoster []) (ex_world ex_hosts_file)))
        ''/etc/hosts'' = Some ''127.0.0.1 localhost''"
proof -
  have ok: "io_ok (ex_env [] WriteOK)"
    by (simp add: io_ok_def ex_env_def)
  have h: "hosts (ex_hoster []) = []"
    by (simp add: ex_hoster_def)
  have f: "files (ex_world ex_hosts_file) (hostsPath (ex_hoster [])) = Some ex_hosts_file"
    by (simp add: ex_world_def ex_hoster_def)
  have v: "strings_Join (strip_trailing (preserved_prefix ex_hosts_file)) [nl] = ''127.0.0.1 localhost''"
    by code_simp
  have n: "strip_trailing (preserved_prefix ex_hosts_file) \<noteq> []"
    by code_simp
  have l: "length (strip_trailing (preserved_prefix ex_hosts_file)) < length (strings_Split ex_hosts_file nl)"
    by code_simp
  have x: "ex_hosts_file = ''127.0.0.1 localhost'' @ [nl]"
    by (simp add: ex_hosts_file_def)
  show ?thesis
    using empty_render_drops_final_newline [OF ok h f n l] ok h f n l v x
    by (simp add: ex_hoster_def)
qed

text \<open>
  C5. When the inspection succeeds, the result of \<^const>\<open>getContainerData\<close> is a list
  of records followed by the legacy record (if there is one); the records are, one for
  one, the records of the networks that declare at least one alias, visited in some
  order: each has its network's IP, the display name, and domains without duplicates
  that are exactly the declared aliases, the display name and the hostname. A network
  without aliases has no record. The orders of the \<^verbatim>\<open>range\<close> loops are orders of the keys
  of the maps they range over.
\<close>

theorem resolve_network_records:
  assumes "ContainerInspect env containerID = Some info"
    and "distinct (map fst (NetworkSettings_Networks info))"
    and "iteration_order (networks_order env) (NetworkSettings_Networks info)"
    and "domain_orders_valid env info"
  shows "\<exists>visited recs.
           getContainerData env containerID = Inr (recs @ legacy_records info)
         \<and> mset visited = mset (filter has_aliases (NetworkSettings_Networks info))
         \<and> list_all2 (is_network_record (display_name info) (Config_Hostname info)) visited recs"
proof -
  let ?nets = "NetworkSettings_Networks info"
  let ?it = "range_map (networks_order env) ?nets"
  let ?recs = "networks_loop (domains_order env) (display_name info) (Config_Hostname info) ?it []"
  have m: "mset ?it = mset ?nets"
    using assms(2,3) by (rule range_map_mset)
  then have v: "mset (filter has_aliases ?it) = mset (filter has_aliases ?nets)"
    by (metis mset_filter)
  have "list_all (\<lambda>(n, network). ep_Aliases network = [] \<or>
             iteration_order (domains_order env n)
               (domainsSet (ep_Aliases network) (display_name info) (Config_Hostname info))) ?it"
    using assms(4) list_all_mset_cong [OF m] by (simp add: domain_orders_valid_def)
  then have "list_all2 (is_network_record (display_name info) (Config_Hostname info))
      (filter has_aliases ?it) ?recs"
    by (rule networks_loop_records)
  with v getContainerData_Some [OF assms(1)] show ?thesis
    by blast
qed

theorem resolve_network_records_witness:
  "ContainerInspect (ex_docker ex_info) ''c1'' = Some ex_info
   \<and> distinct (map fst (NetworkSettings_Networks ex_info))
   \<and> iteration_order (networks_order (ex_docker ex_info)) (NetworkSettings_Networks ex_info)
   \<and> domain_orders_valid (ex_docker ex_info) ex_info
   \<and> (\<exists>visited recs.
         getContainerData (ex_docker ex_info) ''c1'' = Inr (recs @ legacy_records ex_info)
       \<and> mset visited = mset (filter has_aliases (NetworkSettings_Networks ex_info))
       \<and> list_all2 (is_network_record (display_name ex_info) (Config_Hostname ex_info)) visited recs)
   \<and> getContainerData (ex_docker ex_info) ''c1''
       = Inr [\<lparr>IP = ''172.18.0.2'', Name = ''web'', Domains = [''api'', ''web'', ''web-1'']\<rparr>]
   \<and> filter has_aliases (NetworkSettings_Networks ex_info)
       = [(''net1'', \<lparr>ep_IPAddress = ''172.18.0.2'', ep_Aliases = [''api'']\<rparr>)]"
proof -
  have i: "ContainerInspect (ex_docker ex_info) ''c1'' = Some ex_info"
    by (simp add: ex_docker_def)
  have d: "distinct (map fst (NetworkSettings_Networks ex_info))"
    by (simp add: ex_info_def)
  have n: "iteration_order (networks_order (ex_docker ex_info)) (NetworkSettings_Networks ex_info)"
    by (simp add: iteration_order_def ex_docker_def ex_info_def)
  have v: "domain_orders_valid (ex_docker ex_info) ex_info"
    by code_simp
  have g: "getContainerData (ex_docker ex_info) ''c1''
       = Inr [\<lparr>IP = ''172.18.0.2'', Name = ''web'', Domains = [''api'', ''web'', ''web-1'']\<rparr>]"
    by code_simp
  have f: "filter has_aliases (NetworkSettings_Networks ex_info)
       = [(''net1'', \<lparr>ep_IPAddress = ''172.18.0.2'', ep_Aliases = [''api'']\<rparr>)]"
    by (simp add: has_aliases_def ex_info_def)
  from resolve_network_records [OF i d n v] i d n v g f show ?thesis
    by (intro conjI)
qed

text \<open>
  C6, evaluated where the code departs from it: a container attached to a network with
  the alias \<open>api\<close> and no IP address (as \<^verbatim>\<open>ContainerInspect\<close> reports a container that has
  stopped) gets a record with the empty IP. Only the legacy IP is tested for emptiness.
\<close>

theorem empty_network_ip_recorded:
  "getContainerData (ex_docker ex_info_stopped) ''c1''
     = Inr [\<lparr>IP = [], Name = ''web'', Domains = [''api'', ''web'', ''web-1'']\<rparr>]"
  by code_simp

text \<open>
  C7, evaluated where the code departs from it: a container on the default bridge whose
  hostname is its display name gets a legacy record that lists the name twice. Only the
  records of the networks go through \<^verbatim>\<open>domainsSet\<close>.
\<close>

theorem legacy_record_repeats_name:
  "getContainerData (ex_docker ex_info_bridge) ''c1''
     = Inr [\<lparr>IP = ''172.17.0.2'', Name = ''web'', Domains = [''web'', ''web'']\<rparr>]"
  by code_simp

text \<open>
  C8. A container event with action \<^verbatim>\<open>stop\<close>, \<^verbatim>\<open>die\<close> or \<^verbatim>\<open>destroy\<close>: if the id is not in
  the registry, the registry and the world (files, standard output, standard error) are
  unchanged, so nothing was rendered; if it is, the id is deleted from the registry and
  exactly one render is made, of the registry without it.
\<close>

theorem stop_event:
  assumes "ev_Type ev = ''container''"
    and "ev_Action ev = ''stop'' \<or> ev_Action ev = ''die'' \<or> ev_Action ev = ''destroy''"
  shows "(map_of (hosts h) (Actor_ID ev) = None \<longrightarrow> handle_event denv renv h w ev = (h, w))
       \<and> (map_of (hosts h) (Actor_ID ev) \<noteq> None \<longrightarrow>
            hosts (fst (handle_event denv renv h w ev)) = AList.delete (Actor_ID ev) (hosts h)
          \<and> map_of (hosts (fst (handle_event denv renv h w ev))) (Actor_ID ev) = None
          \<and> render_count (snd (handle_event denv renv h w ev)) = render_count w + 1
          \<and> files (snd (handle_event denv renv h w ev))
              = files (snd (updateHostsFile renv
                  (h\<lparr>hosts := AList.delete (Actor_ID ev) (hosts h)\<rparr>) w)))"
proof -
  have e: "handle_event denv renv h w ev = onStop renv h w (Actor_ID ev)"
    using assms by (auto simp: handle_event_def)
  show ?thesis
  proof (cases "map_of (hosts h) (Actor_ID ev) = None")
    case True
    then show ?thesis by (simp add: e onStop_def)
  next
    case False
    let ?h = "h\<lparr>hosts := AList.delete (Actor_ID ev) (hosts h)\<rparr>"
    have "render_count (snd (onStop renv h w (Actor_ID ev)))
        = render_count (snd (updateHostsFile renv ?h w))"
      using onStop_present(3) [OF False] by (rule render_count_cong)
    then have "render_count (snd (onStop renv h w (Actor_ID ev))) = render_count w + 1"
      by (simp add: render_count_updateHostsFile)
    with False show ?thesis
      by (auto simp: e onStop_present delete_conv')
  qed
qed

theorem stop_event_witness:
  "ev_Type (ex_event ''die'' ''c9'') = ''container''
   \<and> ev_Action (ex_event ''die'' ''c9'') = ''die''
   \<and> map_of (hosts (ex_hoster ex_registry)) (Actor_ID (ex_event ''die'' ''c9'')) = None
   \<and> handle_event (ex_docker ex_info) (ex_env [''b''] WriteOK) (ex_hoster ex_registry)
        (ex_world ex_managed_file) (ex_event ''die'' ''c9'')
       = (ex_hoster ex_registry, ex_world ex_managed_file)
   \<and> ev_Type (ex_event ''stop'' ''a'') = ''container''
   \<and> ev_Action (ex_event ''stop'' ''a'') = ''stop''
   \<and> map_of (hosts (ex_hoster ex_registry)) (Actor_ID (ex_event ''stop'' ''a'')) \<noteq> None
   \<and> hosts (fst (handle_event (ex_docker ex_info) (ex_env [''b''] WriteOK) (ex_hoster ex_registry)
        (ex_world ex_managed_file) (ex_event ''stop'' ''a'')))
       = AList.delete (Actor_ID (ex_event ''stop'' ''a'')) (hosts (ex_hoster ex_registry))
   \<and> render_count (snd (handle_event (ex_docker ex_info) (ex_env [''b''] WriteOK) (ex_hoster ex_registry)
        (ex_world ex_managed_file) (ex_event ''stop'' ''a'')))
       = render_count (ex_world ex_managed_file) + 1
   \<and> render_count (ex_world ex_managed_file) = 0
   \<and> AList.delete ''a'' ex_registry = [(''b'', [\<lparr>IP = ''10.0.0.3'', Name = ''b'', Domains = [''b'']\<rparr>])]"
proof -
  have t1: "ev_Type (ex_event ''die'' ''c9'') = ''container''"
    and a1: "ev_Action (ex_event ''die'' ''c9'') = ''die''"
    and t2: "ev_Type (ex_event ''stop'' ''a'') = ''container''"
    and a2: "ev_Action (ex_event ''stop'' ''a'') = ''stop''"
    by (simp_all add: ex_event_def)
  have absent: "map_of (hosts (ex_hoster ex_registry)) (Actor_ID (ex_event ''die'' ''c9'')) = None"
    by (simp add: ex_hoster_def ex_registry_def ex_event_def)
  have present: "map_of (hosts (ex_hoster ex_registry)) (Actor_ID (ex_event ''stop'' ''a'')) \<noteq> None"
    by (simp add: ex_hoster_def ex_registry_def ex_event_def)
  have r0: "render_count (ex_world ex_managed_file) = 0"
    by (simp add: render_count_def ex_world_def)
  have del: "AList.delete ''a'' ex_registry = [(''b'', [\<lparr>IP = ''10.0.0.3'', Name = ''b'', Domains = [''b'']\<rparr>])]"
    by (simp add: ex_registry_def AList.delete_eq)
  have s1: "handle_event (ex_docker ex_info) (ex_env [''b''] WriteOK) (ex_hoster ex_registry)
        (ex_world ex_managed_file) (ex_event ''die'' ''c9'')
       = (ex_hoster ex_registry, ex_world ex_managed_file)"
    using stop_event [where ev = "ex_event ''die'' ''c9''" and h = "ex_hoster ex_registry"
        and denv = "ex_docker ex_info" and renv = "ex_env [''b''] WriteOK"
        and w = "ex_world ex_managed_file"] t1 a1 absent
    by blast
  have s2: "hosts (fst (handle_event (ex_docker ex_info) (ex_env [''b''] WriteOK) (ex_hoster ex_registry)
        (ex_world ex_managed_file) (ex_event ''stop'' ''a'')))
       = AList.delete (Actor_ID (ex_event ''stop'' ''a'')) (hosts (ex_hoster ex_registry))"
    and s3: "render_count (snd (handle_event (ex_docker ex_info) (ex_env [''b''] WriteOK) (ex_hoster ex_registry)
        (ex_world ex_managed_file) (ex_event ''stop'' ''a'')))
       = render_count (ex_world ex_managed_file) + 1"
    using stop_event [where ev = "ex_event ''stop'' ''a''" and h = "ex_hoster ex_registry"
        and denv = "ex_docker ex_info" and renv = "ex_env [''b''] WriteOK"
        and w = "ex_world ex_managed_file"] t2 a2 present
    by blast+
  from t1 a1 absent s1 t2 a2 present s2 s3 r0 del show ?thesis
    by (intro conjI)
qed

text \<open>
  C9. A container event with action \<^verbatim>\<open>start\<close>: if the inspection fails, the failure is
  logged on standard error and the registry, the files and the standard output are
  unchanged, so nothing was rendered; if it succeeds, the resolved records are stored
  under the id (inserted or replaced) and exactly one render is made, of the registry
  with them.
\<close>

theorem start_event:
  assumes "ev_Type ev = ''container''" and "ev_Action ev = ''start''"
  shows "(ContainerInspect denv (Actor_ID ev) = None \<longrightarrow>
            fst (handle_event denv renv h w ev) = h
          \<and> files (snd (handle_event denv renv h w ev)) = files w
          \<and> stdout (snd (handle_event denv renv h w ev)) = stdout w
          \<and> render_count (snd (handle_event denv renv h w ev)) = render_count w
          \<and> stderr (snd (handle_event denv renv h w ev))
              = stderr w @ [(''Error getting container data'', Error ''failed to inspect container'')])
       \<and> (ContainerInspect denv (Actor_ID ev) \<noteq> None \<longrightarrow>
            (\<exists>containerData.
               getContainerData denv (Actor_ID ev) = Inr containerData
             \<and> hosts (fst (handle_event denv renv h w ev))
                 = AList.update (Actor_ID ev) containerData (hosts h)
             \<and> map_of (hosts (fst (handle_event denv renv h w ev))) (Actor_ID ev) = Some containerData
             \<and> render_count (snd (handle_event denv renv h w ev)) = render_count w + 1
             \<and> files (snd (handle_event denv renv h w ev))
                 = files (snd (updateHostsFile renv
                     (h\<lparr>hosts := AList.update (Actor_ID ev) containerData (hosts h)\<rparr>) w))))"
proof -
  have e: "handle_event denv renv h w ev = onStart denv renv h w (Actor_ID ev)"
    using assms by (simp add: handle_event_def)
  show ?thesis
  proof (cases "ContainerInspect denv (Actor_ID ev)")
    case None
    then show ?thesis
      by (simp add: e onStart_def getContainerData_def render_count_def)
  next
    case (Some info)
    then obtain containerData where g: "getContainerData denv (Actor_ID ev) = Inr containerData"
      by (simp add: getContainerData_Some)
    let ?h = "h\<lparr>hosts := AList.update (Actor_ID ev) containerData (hosts h)\<rparr>"
    have "render_count (snd (onStart denv renv h w (Actor_ID ev)))
        = render_count (snd (updateHostsFile renv ?h w))"
      using onStart_resolved(3) [OF g] by (rule render_count_cong)
    then have "render_count (snd (onStart denv renv h w (Actor_ID ev))) = render_count w + 1"
      by (simp add: render_count_updateHostsFile)
    with Some g show ?thesis
      by (simp add: e onStart_resolved update_conv')
  qed
qed

theorem start_event_witness:
  "ev_Type (ex_event ''start'' ''c9'') = ''container''
   \<and> ev_Action (ex_event ''start'' ''c9'') = ''start''
   \<and> ContainerInspect (ex_docker ex_info) (Actor_ID (ex_event ''start'' ''c9'')) = None
   \<and> fst (handle_event (ex_docker ex_info) (ex_env [''a'', ''b''] WriteOK) (ex_hoster ex_registry)
        (ex_world ex_hosts_file) (ex_event ''start'' ''c9'')) = ex_hoster ex_registry
   \<and> files (snd (handle_event (ex_docker ex_info) (ex_env [''a'', ''b''] WriteOK) (ex_hoster ex_registry)
        (ex_world ex_hosts_file) (ex_event ''start'' ''c9''))) = files (ex_world ex_hosts_file)
   \<and> render_count (snd (handle_event (ex_docker ex_info) (ex_env [''a'', ''b''] WriteOK) (ex_hoster ex_registry)
        (ex_world ex_hosts_file) (ex_event ''start'' ''c9''))) = render_count (ex_world ex_hosts_file)
   \<and> ev_Type (ex_event ''start'' ''c1'') = ''container''
   \<and> ev_Action (ex_event ''start'' ''c1'') = ''start''
   \<and> ContainerInspect (ex_docker ex_info) (Actor_ID (ex_event ''start'' ''c1'')) \<noteq> None
   \<and> render_count (snd (handle_event (ex_docker ex_info) (ex_env [''a'', ''b'', ''c1''] WriteOK)
        (ex_hoster ex_registry) (ex_world ex_hosts_file) (ex_event ''start'' ''c1'')))
       = render_count (ex_world ex_hosts_file) + 1
   \<and> map_of (hosts (fst (handle_event (ex_docker ex_info) (ex_env [''a'', ''b'', ''c1''] WriteOK)
        (ex_hoster ex_registry) (ex_world ex_hosts_file) (ex_event ''start'' ''c1'')))) ''c1''
       = Some [\<lparr>IP = ''172.18.0.2'', Name = ''web'', Domains = [''api'', ''web'', ''web-1'']\<rparr>]"
proof -
  have t1: "ev_Type (ex_event ''start'' ''c9'') = ''container''"
    and a1: "ev_Action (ex_event ''start'' ''c9'') = ''start''"
    and t2: "ev_Type (ex_event ''start'' ''c1'') = ''container''"
    and a2: "ev_Action (ex_event ''start'' ''c1'') = ''start''"
    by (simp_all add: ex_event_def)
  have fails: "ContainerInspect (ex_docker ex_info) (Actor_ID (ex_event ''start'' ''c9'')) = None"
    by (simp add: ex_docker_def ex_event_def)
  have found: "ContainerInspect (ex_docker ex_info) (Actor_ID (ex_event ''start'' ''c1'')) \<noteq> None"
    by (simp add: ex_docker_def ex_event_def)
  have s1: "fst (handle_event (ex_docker ex_info) (ex_env [''a'', ''b''] WriteOK) (ex_hoster ex_registry)
        (ex_world ex_hosts_file) (ex_event ''start'' ''c9'')) = ex_hoster ex_registry"
    and s2: "files (snd (handle_event (ex_docker ex_info) (ex_env [''a'', ''b''] WriteOK) (ex_hoster ex_registry)
        (ex_world ex_hosts_file) (ex_event ''start'' ''c9''))) = files (ex_world ex_hosts_file)"
    and s3: "render_count (snd (handle_event (ex_docker ex_info) (ex_env [''a'', ''b''] WriteOK) (ex_hoster ex_registry)
        (ex_world ex_hosts_file) (ex_event ''start'' ''c9''))) = render_count (ex_world ex_hosts_file)"
    using start_event [where ev = "ex_event ''start'' ''c9''" and h = "ex_hoster ex_registry"
        and denv = "ex_docker ex_info" and renv = "ex_env [''a'', ''b''] WriteOK"
        and w = "ex_world ex_hosts_file"] t1 a1 fails
    by blast+
  have s4: "render_count (snd (handle_event (ex_docker ex_info) (ex_env [''a'', ''b'', ''c1''] WriteOK)
        (ex_hoster ex_registry) (ex_world ex_hosts_file) (ex_event ''start'' ''c1'')))
       = render_count (ex_world ex_hosts_file) + 1"
    using start_event [where ev = "ex_event ''start'' ''c1''" and h = "ex_hoster ex_registry"
        and denv = "ex_docker ex_info" and renv = "ex_env [''a'', ''b'', ''c1''] WriteOK"
        and w = "ex_world ex_hosts_file"] t2 a2 found
    by blast
  have s5: "map_of (hosts (fst (handle_event (ex_docker ex_info) (ex_env [''a'', ''b'', ''c1''] WriteOK)
        (ex_hoster ex_registry) (ex_world ex_hosts_file) (ex_event ''start'' ''c1'')))) ''c1''
       = Some [\<lparr>IP = ''172.18.0.2'', Name = ''web'', Domains = [''api'', ''web'', ''web-1'']\<rparr>]"
    by code_simp
  from t1 a1 fails s1 s2 s3 t2 a2 found s4 s5 show ?thesis
    by (intro conjI)
qed

end
